theory Spec2Isabelle
  imports Main "HOL-Library.Word" "HOL-Library.Sublist" "HOL-Library.AList"
begin

section \<open>Dataset preparation: a model of \<^verbatim>\<open>src/experiments/prepare_datasets.py\<close>\<close>

text \<open>
  The script merges per-object mask images into labelled mask files, sorts the samples
  into train, valid and test, and copies the raw files that belong to a sample next to
  each mask it writes. The model below follows the script function by function. The file
  system and the log are an explicit state that every function takes and returns; a Python
  exception is a value \<open>Inl e\<close> returned together with the state reached when it was
  raised, since what was written before the exception stays written.
\<close>

subsection \<open>Images\<close>

text \<open>
  An image is a NumPy array of two dimensions, here the list of its rows.
  \<^verbatim>\<open>cv2.imread(..., cv2.IMREAD_GRAYSCALE)\<close> yields unsigned 8-bit pixels, and
  \<^verbatim>\<open>combine_masks\<close> allocates unsigned 16-bit pixels.
\<close>

type_synonym mask = "8 word list list"
type_synonym labels = "16 word list list"

text \<open>\<^verbatim>\<open>arr.shape\<close>: the number of rows and the length of a row.\<close>

definition shape :: "'a list list \<Rightarrow> nat \<times> nat" where
  "shape m = (length m, (case m of [] \<Rightarrow> 0 | r # _ \<Rightarrow> length r))"

text \<open>An array of \<open>h\<close> rows and \<open>w\<close> columns: every row has the same length.\<close>

definition rect :: "nat \<Rightarrow> nat \<Rightarrow> 'a list list \<Rightarrow> bool" where
  "rect h w m \<longleftrightarrow> length m = h \<and> list_all (\<lambda>r. length r = w) m"

text \<open>\<^verbatim>\<open>np.zeros((height, width), dtype=np.uint16)\<close>\<close>

definition zeros :: "nat \<Rightarrow> nat \<Rightarrow> labels" where
  "zeros h w = replicate h (replicate w 0)"

text \<open>
  \<^verbatim>\<open>np.where(mask > 0)\<close> lists the positions of the non-zero pixels of the mask:
  \<open>fg mask r c\<close> says that row \<open>r\<close>, column \<open>c\<close> is one of them.
\<close>

definition fg :: "mask \<Rightarrow> nat \<Rightarrow> nat \<Rightarrow> bool" where
  "fg m r c \<longleftrightarrow> r < length m \<and> c < length (m ! r) \<and> m ! r ! c \<noteq> 0"

subsection \<open>Errors\<close>

text \<open>The exceptions the script can raise, by their Python names.\<close>

datatype error =
    IndexError
  | OverflowError
  | UnboundLocalError
  | FileNotFoundError
  | NotADirectoryError
  | IsADirectoryError
  | FileExistsError
  | SameFileError
  | Cv2Error
  | SystemExit

subsection \<open>The libraries around the script\<close>

text \<open>
  The script leaves three things to NumPy and OpenCV, and the model takes them as
  parameters:
  \<^item> \<open>imdecode\<close>: what \<^verbatim>\<open>cv2.imread\<close> makes of the contents of a file, \<open>None\<close> when
    they do not decode as an image;
  \<^item> \<open>imencode\<close>: the contents \<^verbatim>\<open>cv2.imwrite\<close> produces for a file name and an
    image, \<open>None\<close> when it has no writer for them and raises \<^verbatim>\<open>cv2.error\<close>;
  \<^item> \<open>overflow_raises\<close>: storing a Python integer outside \<open>0 .. 65535\<close> into a
    \<^verbatim>\<open>uint16\<close> array raises \<^verbatim>\<open>OverflowError\<close> in NumPy 2 and wraps around modulo
    \<open>2 ^ 16\<close> in NumPy 1.
  \<open>'d\<close> is the type of file contents.
\<close>

record 'd libs =
  imdecode :: "'d \<Rightarrow> mask option"
  imencode :: "string \<Rightarrow> labels \<Rightarrow> 'd option"
  overflow_raises :: bool

text \<open>The conversion of the Python integer \<^verbatim>\<open>object_id\<close> to a \<^verbatim>\<open>uint16\<close> pixel.\<close>

definition to_uint16 :: "'d libs \<Rightarrow> int \<Rightarrow> error + 16 word" where
  "to_uint16 L i =
     (if (i < 0 \<or> 65536 \<le> i) \<and> overflow_raises L then Inl OverflowError
      else Inr (word_of_int i))"

subsection \<open>\<^verbatim>\<open>combine_masks\<close>\<close>

text \<open>
  \<^verbatim>\<open>combined_mask[indices] = object_id\<close>: every position listed in \<^verbatim>\<open>indices\<close>
  receives the value; a position outside the array raises \<^verbatim>\<open>IndexError\<close> and leaves
  the array as it was. The value is converted to the array's type first, whether or not
  a position is listed. \<open>h\<close> and \<open>w\<close> are the shape of \<open>out\<close>.
\<close>

definition in_bounds :: "nat \<Rightarrow> nat \<Rightarrow> mask \<Rightarrow> bool" where
  "in_bounds h w m \<longleftrightarrow>
     list_all (\<lambda>r. list_all (\<lambda>c. m ! r ! c = 0 \<or> r < h \<and> c < w) [0..<length (m ! r)])
       [0..<length m]"

definition assign_where :: "'d libs \<Rightarrow> nat \<Rightarrow> nat \<Rightarrow> labels \<Rightarrow> mask \<Rightarrow> int \<Rightarrow> error + labels" where
  "assign_where L h w out m object_id =
     (case to_uint16 L object_id of
        Inl e \<Rightarrow> Inl e
      | Inr v \<Rightarrow>
          if in_bounds h w m
          then Inr (map (\<lambda>r. map (\<lambda>c. if fg m r c then v else out ! r ! c) [0..<w]) [0..<h])
          else Inl IndexError)"

text \<open>
  The loop \<^verbatim>\<open>for mask in mask_images\<close>, with the array and the counter
  \<^verbatim>\<open>object_id\<close> as accumulators.
\<close>

fun combine_loop :: "'d libs \<Rightarrow> nat \<Rightarrow> nat \<Rightarrow> labels \<Rightarrow> int \<Rightarrow> mask list \<Rightarrow> error + labels" where
  "combine_loop L h w combined_mask object_id [] = Inr combined_mask"
| "combine_loop L h w combined_mask object_id (m # rest) =
     (case assign_where L h w combined_mask m object_id of
        Inl e \<Rightarrow> Inl e
      | Inr combined_mask' \<Rightarrow> combine_loop L h w combined_mask' (object_id + 1) rest)"

text \<open>\<^verbatim>\<open>mask_images[0]\<close> raises \<^verbatim>\<open>IndexError\<close> on the empty list.\<close>

definition combine_masks :: "'d libs \<Rightarrow> mask list \<Rightarrow> error + labels" where
  "combine_masks L mask_images =
     (case mask_images of
        [] \<Rightarrow> Inl IndexError
      | first # _ \<Rightarrow>
          (case shape first of
             (height, width) \<Rightarrow> combine_loop L height width (zeros height width) 1 mask_images))"

subsection \<open>The file system and the log\<close>

text \<open>
  A path is the list of its components, so \<^verbatim>\<open>os.path.join(p, name)\<close> is
  \<open>p @ [name]\<close> and \<^verbatim>\<open>os.path.basename(p)\<close> is \<open>last p\<close>; the names the script joins
  (directory entries, the literal \<^verbatim>\<open>all\<close>, the split names and the format) are taken to
  hold no separator. The file system maps a path to what is there: a file with its
  contents, or a directory with the names \<^verbatim>\<open>os.listdir\<close> yields, in the order it yields
  them. A new entry goes to the end of its directory's listing. Links, permissions and
  file metadata are not modelled.
\<close>

type_synonym path = "string list"

datatype 'd entry = File 'd | Dir "string list"

type_synonym 'd fs = "path \<Rightarrow> 'd entry option"

text \<open>
  What the script passes to \<^verbatim>\<open>logging\<close>: the level and the message, the message by
  its kind and the value formatted into it.
\<close>

datatype level = INFO | WARNING | ERROR

datatype message =
    Failed_to_read string
  | Copied_file string
  | Created_directory path
  | Input_path_missing path
  | Output_path_exists path
  | Processing path
  | Skipping string
  | Saved path

record 'd world =
  files :: "'d fs"
  logged :: "(level \<times> message) list"

definition logging :: "level \<Rightarrow> message \<Rightarrow> 'd world \<Rightarrow> 'd world" where
  "logging lv msg w = w\<lparr>logged := logged w @ [(lv, msg)]\<rparr>"

text \<open>\<^verbatim>\<open>os.path.exists\<close>\<close>

definition exists :: "'d fs \<Rightarrow> path \<Rightarrow> bool" where
  "exists fs p \<longleftrightarrow> fs p \<noteq> None"

text \<open>\<^verbatim>\<open>os.listdir\<close>\<close>

definition listdir :: "'d fs \<Rightarrow> path \<Rightarrow> error + string list" where
  "listdir fs p =
     (case fs p of
        None \<Rightarrow> Inl FileNotFoundError
      | Some (File _) \<Rightarrow> Inl NotADirectoryError
      | Some (Dir names) \<Rightarrow> Inr names)"

text \<open>
  \<^verbatim>\<open>cv2.imread(path, cv2.IMREAD_GRAYSCALE)\<close> returns \<^verbatim>\<open>None\<close> for a path that is
  missing, is a directory or does not decode.
\<close>

definition imread :: "'d libs \<Rightarrow> 'd fs \<Rightarrow> path \<Rightarrow> mask option" where
  "imread L fs p = (case fs p of Some (File d) \<Rightarrow> imdecode L d | _ \<Rightarrow> None)"

text \<open>
  Opening a path for writing and storing contents there: the parent must be a directory
  and the path must not be one. A new file is entered in its parent's listing.
\<close>

definition write_file :: "'d fs \<Rightarrow> path \<Rightarrow> 'd \<Rightarrow> error + 'd fs" where
  "write_file fs p d =
     (if p = [] then Inl IsADirectoryError
      else case fs (butlast p) of
        None \<Rightarrow> Inl FileNotFoundError
      | Some (File _) \<Rightarrow> Inl NotADirectoryError
      | Some (Dir names) \<Rightarrow>
          (case fs p of
             Some (Dir _) \<Rightarrow> Inl IsADirectoryError
           | Some (File _) \<Rightarrow> Inr (fs(p \<mapsto> File d))
           | None \<Rightarrow> Inr (fs(butlast p \<mapsto> Dir (names @ [last p]), p \<mapsto> File d))))"

text \<open>
  \<^verbatim>\<open>cv2.imwrite(path, img)\<close> raises \<^verbatim>\<open>cv2.error\<close> when it has no writer for the
  file name and the image; when the file cannot be opened it writes nothing and returns
  \<^verbatim>\<open>False\<close>, which the script does not look at.
\<close>

definition imwrite :: "'d libs \<Rightarrow> path \<Rightarrow> labels \<Rightarrow> 'd world \<Rightarrow> (error + bool) \<times> 'd world" where
  "imwrite L p img w =
     (case imencode L (last p) img of
        None \<Rightarrow> (Inl Cv2Error, w)
      | Some d \<Rightarrow>
          (case write_file (files w) p d of
             Inl _ \<Rightarrow> (Inr False, w)
           | Inr fs' \<Rightarrow> (Inr True, w\<lparr>files := fs'\<rparr>)))"

text \<open>
  \<^verbatim>\<open>shutil.copy2(src, dst)\<close>: a destination that is a directory stands for the entry
  of the source's name inside it; copying a file onto itself raises
  \<^verbatim>\<open>SameFileError\<close>; the source is opened for reading, then the destination for
  writing.
\<close>

definition copy2 :: "'d fs \<Rightarrow> path \<Rightarrow> path \<Rightarrow> error + 'd fs" where
  "copy2 fs src dst =
     (let dst' = (case fs dst of Some (Dir _) \<Rightarrow> dst @ [last src] | _ \<Rightarrow> dst)
      in if src = dst' \<and> exists fs src then Inl SameFileError
         else case fs src of
           None \<Rightarrow> Inl FileNotFoundError
         | Some (Dir _) \<Rightarrow> Inl IsADirectoryError
         | Some (File d) \<Rightarrow> write_file fs dst' d)"

text \<open>\<^verbatim>\<open>os.mkdir\<close>\<close>

definition mkdir :: "'d fs \<Rightarrow> path \<Rightarrow> error + 'd fs" where
  "mkdir fs p =
     (if exists fs p then Inl FileExistsError
      else if p = [] then Inl FileNotFoundError
      else case fs (butlast p) of
        None \<Rightarrow> Inl FileNotFoundError
      | Some (File _) \<Rightarrow> Inl NotADirectoryError
      | Some (Dir names) \<Rightarrow> Inr (fs(butlast p \<mapsto> Dir (names @ [last p]), p \<mapsto> Dir [])))"

text \<open>
  \<^verbatim>\<open>os.makedirs(name)\<close>: when the parent is named and missing it is made first, by the
  same function, and a \<^verbatim>\<open>FileExistsError\<close> from there is ignored; then the directory
  itself is made.
\<close>

function makedirs :: "'d fs \<Rightarrow> path \<Rightarrow> error + 'd fs" where
  "makedirs fs name =
     (if butlast name \<noteq> [] \<and> \<not> exists fs (butlast name)
      then (case makedirs fs (butlast name) of
              Inl e \<Rightarrow> if e = FileExistsError then mkdir fs name else Inl e
            | Inr fs' \<Rightarrow> mkdir fs' name)
      else mkdir fs name)"
  by pat_completeness auto
termination
  by (relation "measure (\<lambda>(fs, name). length name)") (auto intro: diff_less)

declare makedirs.simps [simp del]

subsection \<open>\<^verbatim>\<open>load_mask_images\<close>\<close>

fun load_loop :: "'d libs \<Rightarrow> path \<Rightarrow> string list \<Rightarrow> mask list \<Rightarrow> 'd world \<Rightarrow> mask list \<times> 'd world" where
  "load_loop L folder_path [] images w = (images, w)"
| "load_loop L folder_path (filename # rest) images w =
     (case imread L (files w) (folder_path @ [filename]) of
        Some img \<Rightarrow> load_loop L folder_path rest (images @ [img]) w
      | None \<Rightarrow> load_loop L folder_path rest images (logging WARNING (Failed_to_read filename) w))"

definition load_mask_images :: "'d libs \<Rightarrow> path \<Rightarrow> 'd world \<Rightarrow> (error + mask list) \<times> 'd world" where
  "load_mask_images L folder_path w =
     (case listdir (files w) folder_path of
        Inl e \<Rightarrow> (Inl e, w)
      | Inr names \<Rightarrow>
          (case load_loop L folder_path names [] w of (images, w') \<Rightarrow> (Inr images, w')))"

subsection \<open>\<^verbatim>\<open>copy_corresponding_files\<close>\<close>

text \<open>\<^verbatim>\<open>file.startswith(filename_base)\<close> is \<open>prefix filename_base file\<close>.\<close>

fun copy_loop :: "path \<Rightarrow> path \<Rightarrow> string \<Rightarrow> string list \<Rightarrow> 'd world \<Rightarrow> (error + unit) \<times> 'd world" where
  "copy_loop corresponding_files_dir output_dir filename_base [] w = (Inr (), w)"
| "copy_loop corresponding_files_dir output_dir filename_base (file # rest) w =
     (if prefix filename_base file
      then (case copy2 (files w) (corresponding_files_dir @ [file]) (output_dir @ [file]) of
              Inl e \<Rightarrow> (Inl e, w)
            | Inr fs' \<Rightarrow>
                copy_loop corresponding_files_dir output_dir filename_base rest
                  (logging INFO (Copied_file file) (w\<lparr>files := fs'\<rparr>)))
      else copy_loop corresponding_files_dir output_dir filename_base rest w)"

definition copy_corresponding_files :: "path \<Rightarrow> path \<Rightarrow> string \<Rightarrow> 'd world \<Rightarrow> (error + unit) \<times> 'd world" where
  "copy_corresponding_files corresponding_files_dir output_dir filename_base w =
     (case listdir (files w) corresponding_files_dir of
        Inl e \<Rightarrow> (Inl e, w)
      | Inr names \<Rightarrow> copy_loop corresponding_files_dir output_dir filename_base names w)"

subsection \<open>\<^verbatim>\<open>create_directory\<close>\<close>

definition create_directory :: "path \<Rightarrow> 'd world \<Rightarrow> (error + unit) \<times> 'd world" where
  "create_directory directory_path w =
     (if \<not> exists (files w) directory_path
      then (case makedirs (files w) directory_path of
              Inl e \<Rightarrow> (Inl e, w)
            | Inr fs' \<Rightarrow> (Inr (), logging INFO (Created_directory directory_path) (w\<lparr>files := fs'\<rparr>)))
      else (Inr (), w))"

subsection \<open>\<^verbatim>\<open>split_data\<close>\<close>

text \<open>
  The \<^verbatim>\<open>defaultdict(list)\<close> is an association list in insertion order, the order
  \<^verbatim>\<open>data.items()\<close> yields: reading a missing key gives the empty list, appending under
  a new key enters the key at the end. \<^verbatim>\<open>val_pattern in dirname\<close> is \<open>sublist\<close>.
\<close>

type_synonym splits = "(string \<times> path list) list"

definition dict_get :: "splits \<Rightarrow> string \<Rightarrow> path list" where
  "dict_get data k = (case map_of data k of None \<Rightarrow> [] | Some ps \<Rightarrow> ps)"

definition dict_append :: "splits \<Rightarrow> string \<Rightarrow> path \<Rightarrow> splits" where
  "dict_append data k p = AList.update k (dict_get data k @ [p]) data"

fun split_loop :: "path \<Rightarrow> string \<Rightarrow> string \<Rightarrow> string list \<Rightarrow> splits \<Rightarrow> splits" where
  "split_loop directory_path val_pattern test_pattern [] data = data"
| "split_loop directory_path val_pattern test_pattern (dirname # rest) data =
     split_loop directory_path val_pattern test_pattern rest
       (if sublist val_pattern dirname then dict_append data ''valid'' (directory_path @ [dirname])
        else if sublist test_pattern dirname then dict_append data ''test'' (directory_path @ [dirname])
        else dict_append data ''train'' (directory_path @ [dirname]))"

definition split_data :: "'d fs \<Rightarrow> path \<Rightarrow> string \<Rightarrow> string \<Rightarrow> error + splits" where
  "split_data fs directory_path val_pattern test_pattern =
     (case listdir fs directory_path of
        Inl e \<Rightarrow> Inl e
      | Inr names \<Rightarrow> Inr (split_loop directory_path val_pattern test_pattern names []))"

subsection \<open>\<^verbatim>\<open>process_masks\<close>\<close>

text \<open>The parameters of \<^verbatim>\<open>process_masks\<close>.\<close>

record params =
  input_path :: path
  output_dir :: path
  corresponding_files_dir :: path
  val_pattern :: string
  test_pattern :: string
  format :: string
  exclude_class :: "string list"

text \<open>The name of a sample's mask file: \<^verbatim>\<open>f"{filename_base}_masks.{format}"\<close>.\<close>

definition mask_filename :: "string \<Rightarrow> string \<Rightarrow> string" where
  "mask_filename filename_base fmt = filename_base @ ''_masks.'' @ fmt"

text \<open>
  The loop \<^verbatim>\<open>for class_name in os.listdir(dirpath)\<close>. Two local variables of
  \<^verbatim>\<open>process_masks\<close> pass through it: \<^verbatim>\<open>mask_images\<close>, which is \<open>None\<close> as long as
  no assignment has bound it, and \<^verbatim>\<open>all_masks\<close>, which
  \<^verbatim>\<open>all_masks.extend(class_masks)\<close> extends by the rows of the class's image.
\<close>

fun process_classes ::
  "'d libs \<Rightarrow> params \<Rightarrow> string \<Rightarrow> path \<Rightarrow> string list \<Rightarrow> mask list option \<Rightarrow> 16 word list list \<Rightarrow>
   'd world \<Rightarrow> (error + mask list option \<times> 16 word list list) \<times> 'd world" where
  "process_classes L P split_name dirpath [] mask_images all_masks w =
     (Inr (mask_images, all_masks), w)"
| "process_classes L P split_name dirpath (class_name # rest) mask_images all_masks w =
     (if class_name \<in> set (exclude_class P)
      then process_classes L P split_name dirpath rest mask_images all_masks
             (logging INFO (Skipping class_name) w)
      else
        (case load_mask_images L (dirpath @ [class_name]) w of
           (Inl e, w1) \<Rightarrow> (Inl e, w1)
         | (Inr mask_images', w1) \<Rightarrow>
        (case combine_masks L mask_images' of
           Inl e \<Rightarrow> (Inl e, w1)
         | Inr class_masks \<Rightarrow>
        (let output_dir_class_split = output_dir P @ [format P, class_name, split_name] in
        (case create_directory output_dir_class_split w1 of
           (Inl e, w2) \<Rightarrow> (Inl e, w2)
         | (Inr _, w2) \<Rightarrow>
        (let save_filepath = output_dir_class_split @ [mask_filename (last dirpath) (format P)] in
        (case imwrite L save_filepath class_masks w2 of
           (Inl e, w3) \<Rightarrow> (Inl e, w3)
         | (Inr _, w3) \<Rightarrow>
        (case copy_corresponding_files (corresponding_files_dir P) output_dir_class_split
                (last dirpath) (logging INFO (Saved save_filepath) w3) of
           (Inl e, w4) \<Rightarrow> (Inl e, w4)
         | (Inr _, w4) \<Rightarrow>
             process_classes L P split_name dirpath rest (Some mask_images')
               (all_masks @ class_masks) w4))))))))"

text \<open>
  The body of the loop \<^verbatim>\<open>for dirpath in split_files\<close>. After the classes it reads
  \<^verbatim>\<open>mask_images\<close>, which raises \<^verbatim>\<open>UnboundLocalError\<close> when nothing has bound it.
  The result is the value of \<^verbatim>\<open>mask_images\<close> at the end.
\<close>

definition process_sample ::
  "'d libs \<Rightarrow> params \<Rightarrow> string \<Rightarrow> path \<Rightarrow> mask list option \<Rightarrow> 'd world \<Rightarrow>
   (error + mask list option) \<times> 'd world" where
  "process_sample L P split_name dirpath mask_images w =
     (let all_masks_output_dir = output_dir P @ [format P, ''all'', split_name] in
      (case create_directory all_masks_output_dir w of
         (Inl e, w1) \<Rightarrow> (Inl e, w1)
       | (Inr _, w1) \<Rightarrow>
      (let w2 = logging INFO (Processing dirpath) w1 in
      (case listdir (files w2) dirpath of
         Inl e \<Rightarrow> (Inl e, w2)
       | Inr class_names \<Rightarrow>
      (case process_classes L P split_name dirpath class_names mask_images [] w2 of
         (Inl e, w3) \<Rightarrow> (Inl e, w3)
       | (Inr (mask_images', all_masks), w3) \<Rightarrow>
      (case mask_images' of
         None \<Rightarrow> (Inl UnboundLocalError, w3)
       | Some images \<Rightarrow>
      (case combine_masks L images of
         Inl e \<Rightarrow> (Inl e, w3)
       | Inr combined_mask \<Rightarrow>
      (let save_filepath = all_masks_output_dir @ [mask_filename (last dirpath) (format P)] in
      (case imwrite L save_filepath combined_mask w3 of
         (Inl e, w4) \<Rightarrow> (Inl e, w4)
       | (Inr _, w4) \<Rightarrow>
      (case copy_corresponding_files (corresponding_files_dir P) all_masks_output_dir
              (last dirpath) (logging INFO (Saved save_filepath) w4) of
         (Inl e, w5) \<Rightarrow> (Inl e, w5)
       | (Inr _, w5) \<Rightarrow> (Inr mask_images', w5)))))))))))"

text \<open>
  The iteration \<^verbatim>\<open>for dirpath in split_files\<close> and, around it, the iteration
  \<^verbatim>\<open>for split_name, split_files in data.items()\<close>. An exception in one sample ends
  the run; otherwise the value of \<^verbatim>\<open>mask_images\<close> goes on to the next sample.
\<close>

fun process_split ::
  "'d libs \<Rightarrow> params \<Rightarrow> string \<Rightarrow> path list \<Rightarrow> mask list option \<Rightarrow> 'd world \<Rightarrow>
   (error + mask list option) \<times> 'd world" where
  "process_split L P split_name [] mask_images w = (Inr mask_images, w)"
| "process_split L P split_name (dirpath # rest) mask_images w =
     (case process_sample L P split_name dirpath mask_images w of
        (Inl e, w') \<Rightarrow> (Inl e, w')
      | (Inr mask_images', w') \<Rightarrow> process_split L P split_name rest mask_images' w')"

fun process_splits ::
  "'d libs \<Rightarrow> params \<Rightarrow> splits \<Rightarrow> mask list option \<Rightarrow> 'd world \<Rightarrow>
   (error + mask list option) \<times> 'd world" where
  "process_splits L P [] mask_images w = (Inr mask_images, w)"
| "process_splits L P ((split_name, split_files) # rest) mask_images w =
     (case process_split L P split_name split_files mask_images w of
        (Inl e, w') \<Rightarrow> (Inl e, w')
      | (Inr mask_images', w') \<Rightarrow> process_splits L P rest mask_images' w')"

text \<open>
  \<^verbatim>\<open>process_masks\<close> itself: without the input path it logs an error and returns;
  otherwise it splits the samples and goes through them, \<^verbatim>\<open>mask_images\<close> unbound at
  first.
\<close>

definition process_masks :: "'d libs \<Rightarrow> params \<Rightarrow> 'd world \<Rightarrow> (error + unit) \<times> 'd world" where
  "process_masks L P w =
     (if \<not> exists (files w) (input_path P)
      then (Inr (), logging ERROR (Input_path_missing (input_path P)) w)
      else
        (case split_data (files w) (input_path P) (val_pattern P) (test_pattern P) of
           Inl e \<Rightarrow> (Inl e, w)
         | Inr data \<Rightarrow>
        (case process_splits L P data None w of
           (Inl e, w') \<Rightarrow> (Inl e, w')
         | (Inr _, w') \<Rightarrow> (Inr (), w'))))"

subsection \<open>The script's entry point\<close>

text \<open>
  The command line gives six of the parameters; \<^verbatim>\<open>exclude_class\<close> keeps its default.
  \<^verbatim>\<open>exit()\<close> raises \<^verbatim>\<open>SystemExit\<close>.
\<close>

record args =
  arg_input_path :: path
  arg_output_dir :: path
  arg_corresponding_files_dir :: path
  arg_val_pattern :: string
  arg_test_pattern :: string
  arg_format :: string

definition main :: "'d libs \<Rightarrow> args \<Rightarrow> 'd world \<Rightarrow> (error + unit) \<times> 'd world" where
  "main L a w =
     (if exists (files w) (arg_output_dir a)
      then (Inl SystemExit, logging ERROR (Output_path_exists (arg_output_dir a)) w)
      else process_masks L
             \<lparr>input_path = arg_input_path a, output_dir = arg_output_dir a,
              corresponding_files_dir = arg_corresponding_files_dir a,
              val_pattern = arg_val_pattern a, test_pattern = arg_test_pattern a,
              format = arg_format a, exclude_class = [''Unidentified'']\<rparr> w)"

subsection \<open>A concrete setting for running the model\<close>

text \<open>
  File contents for examples: a grey-scale image that decodes to its pixels, an image
  written by \<^verbatim>\<open>cv2.imwrite\<close> under a file name, or bytes that are no image.
\<close>

datatype content = Gray mask | Written string labels | Bytes string

definition example_libs :: "content libs" where
  "example_libs =
     \<lparr>imdecode = (\<lambda>d. case d of Gray m \<Rightarrow> Some m | _ \<Rightarrow> None),
      imencode = (\<lambda>name img. Some (Written name img)),
      overflow_raises = True\<rparr>"

text \<open>
  A small tree: an input root with two samples, the first with the classes \<open>A\<close> and
  \<open>B\<close>, the second with the excluded class only; a directory of raw files; a
  directory with a sub-directory among its entries; an empty directory; and a second input
  root whose samples have no class to process.
\<close>

definition example_files :: "content fs" where
  "example_files = map_of
     [([], Dir [''in'', ''raw'', ''aux'', ''dest'', ''in2'']),
      ([''in''], Dir [''S1'', ''S2'']),
      ([''in'', ''S1''], Dir [''A'', ''B'']),
      ([''in'', ''S1'', ''A''], Dir [''a.png'', ''readme.txt'']),
      ([''in'', ''S1'', ''A'', ''a.png''], File (Gray [[255, 0]])),
      ([''in'', ''S1'', ''A'', ''readme.txt''], File (Bytes ''masks of class A'')),
      ([''in'', ''S1'', ''B''], Dir [''b.png'']),
      ([''in'', ''S1'', ''B'', ''b.png''], File (Gray [[0, 255]])),
      ([''in'', ''S2''], Dir [''Unidentified'']),
      ([''in'', ''S2'', ''Unidentified''], Dir [''u.png'']),
      ([''in'', ''S2'', ''Unidentified'', ''u.png''], File (Gray [[255, 255]])),
      ([''raw''], Dir [''S1.tif'', ''S2.tif'']),
      ([''raw'', ''S1.tif''], File (Bytes ''first'')),
      ([''raw'', ''S2.tif''], File (Bytes ''second'')),
      ([''aux''], Dir [''S1'', ''S1.tif'']),
      ([''aux'', ''S1''], Dir []),
      ([''aux'', ''S1.tif''], File (Bytes ''first'')),
      ([''dest''], Dir []),
      ([''in2''], Dir [''S2'', ''S1'']),
      ([''in2'', ''S2''], Dir [''Unidentified'']),
      ([''in2'', ''S1''], Dir [])]"

definition example_world :: "content world" where
  "example_world = \<lparr>files = example_files, logged = []\<rparr>"

definition example_params :: params where
  "example_params =
     \<lparr>input_path = [''in''], output_dir = [''out''], corresponding_files_dir = [''raw''],
      val_pattern = ''ST_I06'', test_pattern = ''ST_K07'', format = ''png'',
      exclude_class = [''Unidentified'']\<rparr>"

definition example_args :: args where
  "example_args =
     \<lparr>arg_input_path = [''in''], arg_output_dir = [''dest''],
      arg_corresponding_files_dir = [''raw''],
      arg_val_pattern = ''ST_I06'', arg_test_pattern = ''ST_K07'', arg_format = ''png''\<rparr>"

subsection \<open>Notions for stating what \<^verbatim>\<open>combine_masks\<close> computes\<close>

text \<open>
  The value one pixel holds after the loop of \<^verbatim>\<open>combine_masks\<close> has gone through the
  masks \<open>ms\<close>, when the counter started at \<open>i\<close> and the pixel held \<open>v\<close>: each mask with
  the pixel in its foreground overwrites it with the running counter.
\<close>

fun label_at :: "mask list \<Rightarrow> int \<Rightarrow> 16 word \<Rightarrow> nat \<Rightarrow> nat \<Rightarrow> 16 word" where
  "label_at [] i v r c = v"
| "label_at (m # ms) i v r c = label_at ms (i + 1) (if fg m r c then word_of_int i else v) r c"

text \<open>Two masks overlap when a position is in the foreground of both.\<close>

definition overlap :: "mask \<Rightarrow> mask \<Rightarrow> bool" where
  "overlap a b \<longleftrightarrow>
     list_ex (\<lambda>r. list_ex (\<lambda>c. fg a r c \<and> fg b r c) [0..<length (a ! r)]) [0..<length a]"

text \<open>The foregrounds of a sequence of masks are pairwise disjoint.\<close>

fun disjoint_masks :: "mask list \<Rightarrow> bool" where
  "disjoint_masks [] = True"
| "disjoint_masks (m # ms) = (list_all (\<lambda>m'. \<not> overlap m m') ms \<and> disjoint_masks ms)"

text \<open>A mask with at least one foreground pixel.\<close>

definition has_fg :: "mask \<Rightarrow> bool" where
  "has_fg m \<longleftrightarrow> list_ex (\<lambda>row. list_ex (\<lambda>p. p \<noteq> 0) row) m"

text \<open>The non-zero values that occur in a labelled image.\<close>

definition object_ids :: "labels \<Rightarrow> 16 word set" where
  "object_ids img = set (concat img) - {0}"

section \<open>Properties\<close>

text \<open>
  C4. \<^verbatim>\<open>combine_masks\<close> called with no masks fails: reading \<^verbatim>\<open>mask_images[0]\<close>
  raises \<^verbatim>\<open>IndexError\<close>, whatever the libraries are, so no image is returned.
\<close>

theorem combine_masks_empty_fails:
  "combine_masks L [] = Inl IndexError \<and> (\<nexists>img. combine_masks L [] = Inr img)"
  by (simp add: combine_masks_def)

text \<open>
  C7. When the input path does not exist, \<^verbatim>\<open>process_masks\<close> logs one error and
  returns at once: the file system is as it was, so no directory has been made and no
  file written or copied, and nothing else has been logged.
\<close>

theorem process_masks_missing_input:
  assumes "\<not> exists (files w) (input_path P)"
  shows "process_masks L P w = (Inr (), logging ERROR (Input_path_missing (input_path P)) w)
         \<and> files (snd (process_masks L P w)) = files w
         \<and> logged (snd (process_masks L P w)) = logged w @ [(ERROR, Input_path_missing (input_path P))]"
  using assms by (simp add: process_masks_def logging_def)

theorem process_masks_missing_input_witness:
  "\<not> exists (files example_world) [''nowhere'']
   \<and> process_masks example_libs (example_params\<lparr>input_path := [''nowhere'']\<rparr>) example_world
       = (Inr (), \<lparr>files = example_files, logged = [(ERROR, Input_path_missing [''nowhere''])]\<rparr>)"
  using process_masks_missing_input [of example_world "example_params\<lparr>input_path := [''nowhere'']\<rparr>" example_libs]
  by (simp add: exists_def example_world_def example_files_def logging_def)

text \<open>
  C9. When the output directory already exists, the script logs one error and leaves
  through \<^verbatim>\<open>exit()\<close> before \<^verbatim>\<open>process_masks\<close> is called: the file system is as
  it was.
\<close>

theorem main_output_exists:
  assumes "exists (files w) (arg_output_dir a)"
  shows "main L a w = (Inl SystemExit, logging ERROR (Output_path_exists (arg_output_dir a)) w)
         \<and> files (snd (main L a w)) = files w
         \<and> logged (snd (main L a w)) = logged w @ [(ERROR, Output_path_exists (arg_output_dir a))]"
  using assms by (simp add: main_def logging_def)

theorem main_output_exists_witness:
  "exists (files example_world) [''dest'']
   \<and> main example_libs example_args example_world
       = (Inl SystemExit, \<lparr>files = example_files, logged = [(ERROR, Output_path_exists [''dest''])]\<rparr>)"
  using main_output_exists [of example_world example_args example_libs]
  by (simp add: exists_def example_world_def example_files_def example_args_def logging_def)

subsection \<open>Loading the masks of a directory\<close>

text \<open>
  The loop of \<^verbatim>\<open>load_mask_images\<close> appends the images that decode, in the order of the
  listing, and logs one warning for each name that does not.
\<close>

lemma load_loop_eq:
  "load_loop L folder names images w =
     (images @ List.map_filter (\<lambda>n. imread L (files w) (folder @ [n])) names,
      w\<lparr>logged := logged w @
          map (\<lambda>n. (WARNING, Failed_to_read n))
            (filter (\<lambda>n. imread L (files w) (folder @ [n]) = None) names)\<rparr>)"
proof (induction names arbitrary: images w)
  case Nil
  show ?case by (simp add: map_filter_simps)
next
  case (Cons n names)
  show ?case
  proof (cases "imread L (files w) (folder @ [n])")
    case None
    then show ?thesis by (simp add: Cons.IH map_filter_simps logging_def)
  next
    case (Some img)
    then show ?thesis by (simp add: Cons.IH map_filter_simps)
  qed
qed

text \<open>
  C8. For a directory with the listing \<open>names\<close>, \<^verbatim>\<open>load_mask_images\<close> returns the
  images of the entries that \<^verbatim>\<open>cv2.imread\<close> decodes, in listing order, and raises
  nothing; every other entry adds one warning to the log and nothing else changes. When
  no entry decodes, an empty directory included, the result is the empty list.
\<close>

theorem load_mask_images_skips_unreadable:
  assumes "listdir (files w) folder = Inr names"
  shows "load_mask_images L folder w =
           (Inr (List.map_filter (\<lambda>n. imread L (files w) (folder @ [n])) names),
            w\<lparr>logged := logged w @
                map (\<lambda>n. (WARNING, Failed_to_read n))
                  (filter (\<lambda>n. imread L (files w) (folder @ [n]) = None) names)\<rparr>)
         \<and> ((\<forall>n \<in> set names. imread L (files w) (folder @ [n]) = None) \<longrightarrow>
              fst (load_mask_images L folder w) = Inr [])"
proof -
  have eq: "load_mask_images L folder w =
           (Inr (List.map_filter (\<lambda>n. imread L (files w) (folder @ [n])) names),
            w\<lparr>logged := logged w @
                map (\<lambda>n. (WARNING, Failed_to_read n))
                  (filter (\<lambda>n. imread L (files w) (folder @ [n]) = None) names)\<rparr>)"
    using assms by (simp add: load_mask_images_def load_loop_eq)
  have "List.map_filter (\<lambda>n. imread L (files w) (folder @ [n])) names = []"
    if "\<forall>n \<in> set names. imread L (files w) (folder @ [n]) = None"
    using that by (induction names) (simp_all add: map_filter_simps)
  with eq show ?thesis by simp
qed

theorem load_mask_images_skips_unreadable_witness:
  "listdir (files example_world) [''in'', ''S1'', ''A''] = Inr [''a.png'', ''readme.txt'']
   \<and> load_mask_images example_libs [''in'', ''S1'', ''A''] example_world =
        (Inr [[[255, 0]]],
         \<lparr>files = example_files, logged = [(WARNING, Failed_to_read ''readme.txt'')]\<rparr>)"
  using load_mask_images_skips_unreadable
    [of example_world "[''in'', ''S1'', ''A'']" "[''a.png'', ''readme.txt'']" example_libs]
  by (simp add: listdir_def imread_def example_world_def example_files_def example_libs_def
      map_filter_simps)

subsection \<open>Splitting the samples\<close>

lemma dict_get_append:
  "dict_get (dict_append data k p) k' = (if k' = k then dict_get data k @ [p] else dict_get data k')"
  by (simp add: dict_get_def dict_append_def update_conv')

lemma dict_append_keys: "fst ` set (dict_append data k p) = insert k (fst ` set data)"
proof -
  have "set (map fst (dict_append data k p)) = insert k (set (map fst data))"
    by (auto simp: dict_append_def update_keys)
  then show ?thesis by simp
qed

lemma split_loop_get:
  "dict_get (split_loop dir vp tp names data) k =
     dict_get data k @
     map (\<lambda>n. dir @ [n])
       (filter (\<lambda>n. (if sublist vp n then ''valid'' else if sublist tp n then ''test'' else ''train'') = k)
          names)"
  by (induction names arbitrary: data) (simp_all add: dict_get_append)

lemma split_loop_keys:
  "fst ` set (split_loop dir vp tp names data) \<subseteq> fst ` set data \<union> {''train'', ''valid'', ''test''}"
proof (induction names arbitrary: data)
  case Nil
  show ?case by auto
next
  case (Cons n names)
  define k where
    "k = (if sublist vp n then ''valid'' else if sublist tp n then ''test'' else ''train'')"
  have step: "split_loop dir vp tp (n # names) data =
      split_loop dir vp tp names (dict_append data k (dir @ [n]))"
    by (simp add: k_def)
  have "k \<in> {''train'', ''valid'', ''test''}"
    by (simp add: k_def)
  with Cons.IH [of "dict_append data k (dir @ [n])"] show ?case
    unfolding step dict_append_keys by blast
qed

text \<open>
  C5. For a root with the listing \<open>names\<close>, \<^verbatim>\<open>split_data\<close> returns a dictionary
  with no key besides \<^verbatim>\<open>train\<close>, \<^verbatim>\<open>valid\<close> and \<^verbatim>\<open>test\<close>: under
  \<^verbatim>\<open>valid\<close> the children whose name contains the validation pattern, under
  \<^verbatim>\<open>test\<close> those whose name contains the test pattern and not the validation
  pattern, under \<^verbatim>\<open>train\<close> the others, each in listing order; so every child is in
  exactly one of the three, and a name with both patterns is in \<^verbatim>\<open>valid\<close>.
\<close>

theorem split_data_partition:
  assumes "listdir fs dir = Inr names"
  shows "\<exists>data. split_data fs dir vp tp = Inr data
     \<and> dict_get data ''valid'' = map (\<lambda>n. dir @ [n]) (filter (\<lambda>n. sublist vp n) names)
     \<and> dict_get data ''test'' =
         map (\<lambda>n. dir @ [n]) (filter (\<lambda>n. \<not> sublist vp n \<and> sublist tp n) names)
     \<and> dict_get data ''train'' =
         map (\<lambda>n. dir @ [n]) (filter (\<lambda>n. \<not> sublist vp n \<and> \<not> sublist tp n) names)
     \<and> fst ` set data \<subseteq> {''train'', ''valid'', ''test''}
     \<and> (\<forall>n \<in> set names.
          \<exists>!k. k \<in> {''train'', ''valid'', ''test''} \<and> dir @ [n] \<in> set (dict_get data k))"
proof -
  define data where "data = split_loop dir vp tp names []"
  have res: "split_data fs dir vp tp = Inr data"
    using assms by (simp add: split_data_def data_def)
  have empty: "dict_get [] k = []" for k
    by (simp add: dict_get_def)
  have kv: "(\<lambda>n. (if sublist vp n then ''valid'' else if sublist tp n then ''test'' else ''train'')
              = ''valid'') = (\<lambda>n. sublist vp n)"
    by (auto simp: fun_eq_iff)
  have kt: "(\<lambda>n. (if sublist vp n then ''valid'' else if sublist tp n then ''test'' else ''train'')
              = ''test'') = (\<lambda>n. \<not> sublist vp n \<and> sublist tp n)"
    by (auto simp: fun_eq_iff)
  have kr: "(\<lambda>n. (if sublist vp n then ''valid'' else if sublist tp n then ''test'' else ''train'')
              = ''train'') = (\<lambda>n. \<not> sublist vp n \<and> \<not> sublist tp n)"
    by (auto simp: fun_eq_iff)
  have v: "dict_get data ''valid'' = map (\<lambda>n. dir @ [n]) (filter (\<lambda>n. sublist vp n) names)"
    unfolding data_def split_loop_get empty kv by simp
  have t: "dict_get data ''test'' =
         map (\<lambda>n. dir @ [n]) (filter (\<lambda>n. \<not> sublist vp n \<and> sublist tp n) names)"
    unfolding data_def split_loop_get empty kt by simp
  have r: "dict_get data ''train'' =
         map (\<lambda>n. dir @ [n]) (filter (\<lambda>n. \<not> sublist vp n \<and> \<not> sublist tp n) names)"
    unfolding data_def split_loop_get empty kr by simp
  have k: "fst ` set data \<subseteq> {''train'', ''valid'', ''test''}"
    using split_loop_keys [of dir vp tp names "[]"] by (simp add: data_def)
  have mem: "dir @ [n] \<in> set (dict_get data k) \<longleftrightarrow>
      n \<in> set names \<and>
      (if sublist vp n then ''valid'' else if sublist tp n then ''test'' else ''train'') = k" for n k
    unfolding data_def split_loop_get empty by auto
  have one: "\<exists>!k. k \<in> {''train'', ''valid'', ''test''} \<and> dir @ [n] \<in> set (dict_get data k)"
    if n: "n \<in> set names" for n
  proof (rule ex1I [of _ "if sublist vp n then ''valid'' else if sublist tp n then ''test'' else ''train''"])
    show "(if sublist vp n then ''valid'' else if sublist tp n then ''test'' else ''train'')
            \<in> {''train'', ''valid'', ''test''} \<and>
          dir @ [n] \<in> set (dict_get data
            (if sublist vp n then ''valid'' else if sublist tp n then ''test'' else ''train''))"
      unfolding mem using n by simp
  next
    fix k
    assume "k \<in> {''train'', ''valid'', ''test''} \<and> dir @ [n] \<in> set (dict_get data k)"
    then show "k = (if sublist vp n then ''valid'' else if sublist tp n then ''test'' else ''train'')"
      unfolding mem by simp
  qed
  show ?thesis
    by (intro exI [of _ data] conjI ballI res v t r k one)
qed

theorem split_data_partition_witness:
  "listdir example_files [''in''] = Inr [''S1'', ''S2'']
   \<and> split_data example_files [''in''] ''S1'' ''S'' =
        Inr [(''valid'', [[''in'', ''S1'']]), (''test'', [[''in'', ''S2'']])]
   \<and> dict_get [(''valid'', [[''in'', ''S1'']]), (''test'', [[''in'', ''S2'']])] ''train'' = []"
  using split_data_partition [of example_files "[''in'']" "[''S1'', ''S2'']" "''S1''" "''S''"]
  by (simp add: listdir_def example_files_def split_data_def dict_append_def dict_get_def
      sublist_Cons_right)

subsection \<open>Combining masks\<close>

lemma rect_nth: "rect h w m \<Longrightarrow> r < h \<Longrightarrow> length (m ! r) = w"
  by (auto simp: rect_def list_all_length)

lemma rect_length: "rect h w m \<Longrightarrow> length m = h"
  by (simp add: rect_def)

lemma rect_map: "rect h w (map (\<lambda>r. map (f r) [0..<w]) [0..<h])"
  by (simp add: rect_def list_all_iff)

lemma rect_eq_map: "rect h w m \<Longrightarrow> m = map (\<lambda>r. map (\<lambda>c. m ! r ! c) [0..<w]) [0..<h]"
  by (auto simp: list_eq_iff_nth_eq rect_length rect_nth)

lemma rect_zeros: "rect h w (zeros h w)"
  by (simp add: rect_def zeros_def list_all_iff)

lemma zeros_nth: "r < h \<Longrightarrow> c < w \<Longrightarrow> zeros h w ! r ! c = 0"
  by (simp add: zeros_def)

lemma fg_rect: "rect h w m \<Longrightarrow> fg m r c \<Longrightarrow> r < h \<and> c < w"
  by (auto simp: fg_def rect_length rect_nth)

lemma in_bounds_iff: "in_bounds h w m \<longleftrightarrow> (\<forall>r c. fg m r c \<longrightarrow> r < h \<and> c < w)"
proof
  assume "in_bounds h w m"
  then have "\<forall>r < length m. \<forall>c < length (m ! r). m ! r ! c = 0 \<or> r < h \<and> c < w"
    by (simp add: in_bounds_def list_all_iff)
  then show "\<forall>r c. fg m r c \<longrightarrow> r < h \<and> c < w"
    unfolding fg_def by blast
next
  assume "\<forall>r c. fg m r c \<longrightarrow> r < h \<and> c < w"
  then have "\<forall>r < length m. \<forall>c < length (m ! r). m ! r ! c = 0 \<or> r < h \<and> c < w"
    unfolding fg_def by blast
  then show "in_bounds h w m"
    by (simp add: in_bounds_def list_all_iff)
qed

lemma rect_in_bounds: "rect h w m \<Longrightarrow> in_bounds h w m"
  by (auto simp: in_bounds_iff dest: fg_rect)

lemma shape_rect: "rect h w m \<Longrightarrow> shape m = (h, if h = 0 then 0 else w)"
  by (cases m) (auto simp: shape_def rect_def)

lemma assign_where_ok:
  assumes "0 \<le> i" "i < 65536" "in_bounds h w m"
  shows "assign_where L h w out m i =
           Inr (map (\<lambda>r. map (\<lambda>c. if fg m r c then word_of_int i else out ! r ! c) [0..<w]) [0..<h])"
  using assms by (simp add: assign_where_def to_uint16_def)

lemma combine_loop_pixels:
  assumes "\<forall>m \<in> set ms. in_bounds h w m" "0 \<le> i" "i + int (length ms) \<le> 65536" "rect h w out"
  shows "combine_loop L h w out i ms =
           Inr (map (\<lambda>r. map (\<lambda>c. label_at ms i (out ! r ! c) r c) [0..<w]) [0..<h])"
  using assms
proof (induction ms arbitrary: out i)
  case Nil
  then show ?case using rect_eq_map [of h w out] by simp
next
  case (Cons m ms)
  define out' where
    "out' = map (\<lambda>r. map (\<lambda>c. if fg m r c then word_of_int i else out ! r ! c) [0..<w]) [0..<h]"
  have a: "assign_where L h w out m i = Inr out'"
    unfolding out'_def using Cons.prems by (intro assign_where_ok) auto
  have r: "rect h w out'"
    unfolding out'_def by (rule rect_map)
  have px: "out' ! r ! c = (if fg m r c then word_of_int i else out ! r ! c)" if "r < h" "c < w" for r c
    using that by (simp add: out'_def)
  have "combine_loop L h w out' (i + 1) ms =
      Inr (map (\<lambda>r. map (\<lambda>c. label_at ms (i + 1) (out' ! r ! c) r c) [0..<w]) [0..<h])"
    using Cons.prems r by (intro Cons.IH) auto
  also have "map (\<lambda>r. map (\<lambda>c. label_at ms (i + 1) (out' ! r ! c) r c) [0..<w]) [0..<h] =
      map (\<lambda>r. map (\<lambda>c. label_at (m # ms) i (out ! r ! c) r c) [0..<w]) [0..<h]"
    by (simp add: px)
  finally show ?case by (simp add: a)
qed

lemma label_at_none: "\<forall>m \<in> set ms. \<not> fg m r c \<Longrightarrow> label_at ms i v r c = v"
  by (induction ms arbitrary: i v) auto

lemma label_at_last:
  assumes "k < length ms" "fg (ms ! k) r c" "\<forall>j. k < j \<and> j < length ms \<longrightarrow> \<not> fg (ms ! j) r c"
  shows "label_at ms i v r c = word_of_int (i + int k)"
  using assms
proof (induction ms arbitrary: i v k)
  case Nil
  then show ?case by simp
next
  case (Cons m ms)
  show ?case
  proof (cases k)
    case 0
    have "\<forall>m' \<in> set ms. \<not> fg m' r c"
    proof
      fix m' assume "m' \<in> set ms"
      then obtain j where "j < length ms" "ms ! j = m'" by (auto simp: in_set_conv_nth)
      with Cons.prems(3) [rule_format, of "Suc j"] 0 show "\<not> fg m' r c" by auto
    qed
    with Cons.prems 0 show ?thesis by (simp add: label_at_none)
  next
    case (Suc k')
    have "label_at ms (i + 1) (if fg m r c then word_of_int i else v) r c = word_of_int (i + 1 + int k')"
    proof (rule Cons.IH)
      show "k' < length ms" using Cons.prems Suc by simp
      show "fg (ms ! k') r c" using Cons.prems Suc by simp
      show "\<forall>j. k' < j \<and> j < length ms \<longrightarrow> \<not> fg (ms ! j) r c"
        using Cons.prems(3) Suc by (metis Suc_less_eq length_Cons nth_Cons_Suc)
    qed
    with Suc show ?thesis by (simp add: add.commute add.left_commute)
  qed
qed

lemma overlap_iff: "overlap a b \<longleftrightarrow> (\<exists>r c. fg a r c \<and> fg b r c)"
proof -
  have "overlap a b \<longleftrightarrow> (\<exists>r < length a. \<exists>c < length (a ! r). fg a r c \<and> fg b r c)"
    by (simp add: overlap_def list_ex_iff Bex_def)
  also have "\<dots> \<longleftrightarrow> (\<exists>r c. fg a r c \<and> fg b r c)"
    unfolding fg_def by blast
  finally show ?thesis .
qed

lemma disjoint_masks_nth:
  assumes "disjoint_masks ms" "i < j" "j < length ms"
  shows "\<not> (fg (ms ! i) r c \<and> fg (ms ! j) r c)"
  using assms
proof (induction ms arbitrary: i j)
  case Nil
  then show ?case by simp
next
  case (Cons m ms)
  show ?case
  proof (cases i)
    case 0
    from Cons.prems 0 obtain j' where j': "j = Suc j'" "j' < length ms"
      by (cases j) auto
    then have "ms ! j' \<in> set ms" by simp
    with Cons.prems(1) have "\<not> overlap m (ms ! j')" by (auto simp: list_all_iff)
    with 0 j' show ?thesis by (auto simp: overlap_iff)
  next
    case (Suc i')
    with Cons.prems obtain j' where "j = Suc j'" "i' < j'" "j' < length ms"
      by (cases j) auto
    with Cons.prems(1) Cons.IH [of i' j'] Suc show ?thesis by simp
  qed
qed

lemma disjoint_masks_other:
  assumes "disjoint_masks ms" "k < length ms" "j < length ms" "fg (ms ! k) r c" "fg (ms ! j) r c"
  shows "j = k"
proof (rule ccontr)
  assume "j \<noteq> k"
  then consider "j < k" | "k < j" by linarith
  then show False
    using disjoint_masks_nth [OF assms(1), of j k r c] disjoint_masks_nth [OF assms(1), of k j r c] assms
    by cases auto
qed

lemma has_fg_iff: "has_fg m \<longleftrightarrow> (\<exists>r c. fg m r c)"
proof
  assume "has_fg m"
  then obtain row p where "row \<in> set m" "p \<in> set row" "p \<noteq> 0"
    by (auto simp: has_fg_def list_ex_iff)
  then obtain r c where "r < length m" "m ! r = row" "c < length row" "row ! c = p"
    by (metis in_set_conv_nth)
  with \<open>p \<noteq> 0\<close> have "fg m r c" by (simp add: fg_def)
  then show "\<exists>r c. fg m r c" by blast
next
  assume "\<exists>r c. fg m r c"
  then obtain r c where "r < length m" "c < length (m ! r)" "m ! r ! c \<noteq> 0"
    by (auto simp: fg_def)
  then have "m ! r \<in> set m" "m ! r ! c \<in> set (m ! r)" by simp_all
  with \<open>m ! r ! c \<noteq> 0\<close> show "has_fg m"
    unfolding has_fg_def list_ex_iff by blast
qed

lemma id_nonzero: "k < 65535 \<Longrightarrow> (of_nat (Suc k) :: 16 word) \<noteq> 0"
proof
  assume k: "k < 65535" and "(of_nat (Suc k) :: 16 word) = 0"
  then have "(2::nat) ^ LENGTH(16) dvd Suc k" by (simp only: word_of_nat_eq_0_iff)
  then have "(2::nat) ^ LENGTH(16) \<le> Suc k" by (rule dvd_imp_le) simp
  with k show False by simp
qed

lemma id_inj:
  assumes "k < 65535" "j < 65535" "(of_nat (Suc k) :: 16 word) = of_nat (Suc j)"
  shows "k = j"
proof -
  have "take_bit LENGTH(16) (Suc k) = take_bit LENGTH(16) (Suc j)"
    using assms(3) by (simp only: word_of_nat_eq_iff)
  moreover have "take_bit LENGTH(16) (Suc k) = Suc k"
    by (rule take_bit_nat_eq_self) (use assms(1) in simp)
  moreover have "take_bit LENGTH(16) (Suc j) = Suc j"
    by (rule take_bit_nat_eq_self) (use assms(2) in simp)
  ultimately show ?thesis by simp
qed

lemma combine_masks_pixels:
  assumes "length ms < 65536" "\<forall>m \<in> set ms. rect h w m" "ms \<noteq> []"
  shows "\<exists>out. combine_masks L ms = Inr out \<and> rect h w out \<and>
           (\<forall>r < h. \<forall>c < w. out ! r ! c = label_at ms 1 0 r c)"
proof -
  obtain m0 rest where ms: "ms = m0 # rest"
    using assms(3) by (cases ms) auto
  define w0 where "w0 = (if h = 0 then 0 else w)"
  define out where
    "out = map (\<lambda>r. map (\<lambda>c. label_at ms 1 (zeros h w0 ! r ! c) r c) [0..<w0]) [0..<h]"
  have "rect h w m0" using assms(2) ms by simp
  then have sh: "shape m0 = (h, w0)" by (simp add: shape_rect w0_def)
  have inb: "\<forall>m \<in> set ms. in_bounds h w0 m"
  proof
    fix m assume "m \<in> set ms"
    then have r: "rect h w m" using assms(2) by blast
    show "in_bounds h w0 m"
    proof (cases "h = 0")
      case True
      with r have "m = []" by (simp add: rect_def)
      then show ?thesis by (simp add: in_bounds_def)
    next
      case False
      with r show ?thesis by (simp add: w0_def rect_in_bounds)
    qed
  qed
  have "combine_loop L h w0 (zeros h w0) 1 ms = Inr out"
    unfolding out_def using inb assms(1) by (intro combine_loop_pixels rect_zeros) auto
  then have res: "combine_masks L ms = Inr out"
    by (simp add: combine_masks_def ms sh)
  have rect: "rect h w out"
  proof (cases "h = 0")
    case True
    then show ?thesis by (simp add: out_def rect_def)
  next
    case False
    then show ?thesis unfolding out_def w0_def by (simp add: rect_map)
  qed
  have px: "out ! r ! c = label_at ms 1 0 r c" if "r < h" "c < w" for r c
    using that by (simp add: out_def w0_def zeros_nth)
  from res rect px show ?thesis by blast
qed



text \<open>
  C2, as amended. For a non-empty sequence of fewer than 65536 masks of the same size,
  with pairwise disjoint foregrounds none of which is empty, \<^verbatim>\<open>combine_masks\<close>
  returns an image of that size whose non-zero values are exactly \<open>1, \<dots>, N\<close>, so
  \<open>N\<close> distinct ones; a pixel holds \<open>k + 1\<close> exactly when it is in the foreground of the
  mask at index \<open>k\<close> (counted from 0), and 0 exactly when it is in no foreground.
\<close>

theorem combine_masks_disjoint:
  assumes "ms \<noteq> []" "length ms < 65536" "\<forall>m \<in> set ms. rect h w m"
    and "disjoint_masks ms" "\<forall>m \<in> set ms. has_fg m"
  shows "\<exists>out. combine_masks L ms = Inr out \<and> rect h w out
     \<and> object_ids out = (\<lambda>k. of_nat (Suc k)) ` {..<length ms}
     \<and> card (object_ids out) = length ms
     \<and> (\<forall>r < h. \<forall>c < w. \<forall>k < length ms. out ! r ! c = of_nat (Suc k) \<longleftrightarrow> fg (ms ! k) r c)
     \<and> (\<forall>r < h. \<forall>c < w. out ! r ! c = 0 \<longleftrightarrow> (\<forall>k < length ms. \<not> fg (ms ! k) r c))"
proof -
  obtain out where res: "combine_masks L ms = Inr out" and rect: "rect h w out"
    and px: "\<forall>r < h. \<forall>c < w. out ! r ! c = label_at ms 1 0 r c"
    using combine_masks_pixels [of ms h w L] assms by auto
  have hit: "out ! r ! c = of_nat (Suc k)" if "k < length ms" "fg (ms ! k) r c" for r c k
  proof -
    have "rect h w (ms ! k)" using assms(3) that(1) by simp
    with that(2) have rc: "r < h" "c < w" by (auto dest: fg_rect)
    have "\<forall>j. k < j \<and> j < length ms \<longrightarrow> \<not> fg (ms ! j) r c"
      using disjoint_masks_other [OF assms(4) that(1) _ that(2)] by auto
    then have "label_at ms 1 0 r c = word_of_int (1 + int k)"
      using that by (intro label_at_last) auto
    with rc px show ?thesis by simp
  qed
  have miss: "out ! r ! c = 0" if "r < h" "c < w" "\<forall>k < length ms. \<not> fg (ms ! k) r c" for r c
  proof -
    have "\<forall>m \<in> set ms. \<not> fg m r c"
      using that(3) by (auto simp: in_set_conv_nth)
    then have "label_at ms 1 0 r c = 0" by (rule label_at_none)
    with that px show ?thesis by simp
  qed
  have small: "k < 65535" if "k < length ms" for k
    using that assms(2) by simp
  have A: "out ! r ! c = of_nat (Suc k) \<longleftrightarrow> fg (ms ! k) r c"
    if "r < h" "c < w" "k < length ms" for r c k
  proof
    assume eq: "out ! r ! c = of_nat (Suc k)"
    then have "out ! r ! c \<noteq> 0" using id_nonzero [OF small [OF that(3)]] by simp
    with miss [OF that(1,2)] obtain j where j: "j < length ms" "fg (ms ! j) r c" by blast
    then have "out ! r ! c = of_nat (Suc j)" by (rule hit)
    with eq have "j = k" using id_inj [OF small [OF j(1)] small [OF that(3)]] by simp
    with j show "fg (ms ! k) r c" by simp
  next
    assume "fg (ms ! k) r c"
    with that(3) show "out ! r ! c = of_nat (Suc k)" by (rule hit)
  qed
  have B: "out ! r ! c = 0 \<longleftrightarrow> (\<forall>k < length ms. \<not> fg (ms ! k) r c)" if "r < h" "c < w" for r c
  proof
    assume z: "out ! r ! c = 0"
    show "\<forall>k < length ms. \<not> fg (ms ! k) r c"
    proof (intro allI impI notI)
      fix k assume k: "k < length ms" "fg (ms ! k) r c"
      then have "out ! r ! c = of_nat (Suc k)" by (rule hit)
      with z id_nonzero [OF small [OF k(1)]] show False by simp
    qed
  next
    assume "\<forall>k < length ms. \<not> fg (ms ! k) r c"
    with that show "out ! r ! c = 0" by (rule miss)
  qed
  have vals: "set (concat out) = {out ! r ! c | r c. r < h \<and> c < w}"
  proof -
    have "set (concat out) = (\<Union>r < h. set (out ! r))"
      using rect by (auto simp: rect_def set_conv_nth [of out])
    also have "\<dots> = {out ! r ! c | r c. r < h \<and> c < w}"
      using rect by (auto simp: set_conv_nth rect_nth)
    finally show ?thesis .
  qed
  have ids: "object_ids out = (\<lambda>k. of_nat (Suc k)) ` {..<length ms}"
  proof (intro equalityI subsetI)
    fix v assume "v \<in> object_ids out"
    then obtain r c where rc: "r < h" "c < w" "v = out ! r ! c" "v \<noteq> 0"
      unfolding object_ids_def vals by auto
    with B [OF rc(1,2)] obtain k where k: "k < length ms" "fg (ms ! k) r c" by auto
    then have "out ! r ! c = of_nat (Suc k)" by (rule hit)
    with rc k show "v \<in> (\<lambda>k. of_nat (Suc k)) ` {..<length ms}" by auto
  next
    fix v :: "16 word" assume "v \<in> (\<lambda>k. of_nat (Suc k)) ` {..<length ms}"
    then obtain k where k: "k < length ms" "v = of_nat (Suc k)" by auto
    then have "has_fg (ms ! k)" using assms(5) by simp
    then obtain r c where f: "fg (ms ! k) r c" by (auto simp: has_fg_iff)
    have "rect h w (ms ! k)" using assms(3) k(1) by simp
    with f have rc: "r < h" "c < w" by (auto dest: fg_rect)
    have "out ! r ! c = v" using hit [OF k(1) f] k(2) by simp
    with rc have "v \<in> set (concat out)" unfolding vals by blast
    moreover have "v \<noteq> 0" using k id_nonzero [OF small [OF k(1)]] by simp
    ultimately show "v \<in> object_ids out" unfolding object_ids_def by blast
  qed
  have "inj_on (\<lambda>k. of_nat (Suc k) :: 16 word) {..<length ms}"
    by (rule inj_onI) (auto dest: small intro: id_inj)
  then have card: "card (object_ids out) = length ms"
    unfolding ids by (simp add: card_image)
  show ?thesis
    by (intro exI [of _ out] conjI allI impI res rect ids card A B)
qed

theorem combine_masks_disjoint_witness:
  "[[[255, 0]], [[0, 255 :: 8 word]]] \<noteq> []
   \<and> length [[[255, 0]], [[0, 255 :: 8 word]]] < 65536
   \<and> rect 1 2 [[255, 0 :: 8 word]] \<and> rect 1 2 [[0, 255 :: 8 word]]
   \<and> disjoint_masks [[[255, 0]], [[0, 255]]]
   \<and> has_fg [[255, 0]] \<and> has_fg [[0, 255]]
   \<and> combine_masks example_libs [[[255, 0]], [[0, 255]]] = Inr [[1, 2]]
   \<and> card (object_ids [[1, 2]]) = 2"
proof -
  have basic: "[[[255, 0]], [[0, 255 :: 8 word]]] \<noteq> []"
    "length [[[255, 0]], [[0, 255 :: 8 word]]] < 65536"
    "rect 1 2 [[255, 0 :: 8 word]]" "rect 1 2 [[0, 255 :: 8 word]]"
    "disjoint_masks [[[255, 0]], [[0, 255]]]"
    "has_fg [[255, 0]]" "has_fg [[0, 255]]"
    by (simp_all add: rect_def overlap_def fg_def has_fg_def)
  have hyps: "[[[255, 0]], [[0, 255 :: 8 word]]] \<noteq> []"
    "length [[[255, 0]], [[0, 255 :: 8 word]]] < 65536"
    "\<forall>m \<in> set [[[255, 0]], [[0, 255 :: 8 word]]]. rect 1 2 m"
    "disjoint_masks [[[255, 0]], [[0, 255]]]"
    "\<forall>m \<in> set [[[255, 0]], [[0, 255]]]. has_fg m"
    using basic by simp_all
  obtain out where out: "combine_masks example_libs [[[255, 0]], [[0, 255]]] = Inr out"
      "card (object_ids out) = length [[[255, 0]], [[0, 255 :: 8 word]]]"
    using combine_masks_disjoint [OF hyps, of example_libs] by (elim exE conjE) (rule that)
  have "combine_masks example_libs [[[255, 0]], [[0, 255]]] = Inr [[1, 2]]"
    by code_simp
  with out have c: "combine_masks example_libs [[[255, 0]], [[0, 255]]] = Inr [[1, 2]]"
    "card (object_ids [[1, 2]]) = 2" by simp_all
  show ?thesis
    by (intro conjI basic c)
qed

text \<open>
  C2 as stated fails for a mask without foreground: of two masks of the same size with
  disjoint foregrounds, the second all zero, only the identifier 1 reaches the image, so
  the image holds one non-zero value and not two.
\<close>

theorem combine_masks_distinct_ids_counterexample:
  "rect 1 2 [[255, 0 :: 8 word]] \<and> rect 1 2 [[0, 0 :: 8 word]]
   \<and> disjoint_masks [[[255, 0]], [[0, 0]]]
   \<and> length [[[255, 0]], [[0, 0 :: 8 word]]] = 2
   \<and> combine_masks example_libs [[[255, 0]], [[0, 0]]] = Inr [[1, 0]]
   \<and> card (object_ids [[1, 0]]) = 1"
proof -
  have "combine_masks example_libs [[[255, 0]], [[0, 0]]] = Inr [[1, 0]]"
    by code_simp
  then show ?thesis
    by (simp add: rect_def overlap_def fg_def object_ids_def)
qed

text \<open>
  The bound on the number of masks is needed: the counter for mask number 65536 does not
  fit a \<^verbatim>\<open>uint16\<close>, and where NumPy raises on it the loop ends in
  \<^verbatim>\<open>OverflowError\<close>.
\<close>

lemma combine_loop_overflow:
  assumes "overflow_raises L" "\<forall>m \<in> set ms. in_bounds h w m"
    and "0 \<le> i" "i \<le> 65536" "65536 < i + int (length ms)"
  shows "combine_loop L h w out i ms = Inl OverflowError"
  using assms(2-)
proof (induction ms arbitrary: out i)
  case Nil
  then show ?case by simp
next
  case (Cons m ms)
  show ?case
  proof (cases "i = 65536")
    case True
    with assms(1) show ?thesis by (simp add: assign_where_def to_uint16_def)
  next
    case False
    with Cons.prems have i: "i < 65536" by simp
    have m: "in_bounds h w m" using Cons.prems by simp
    have "combine_loop L h w out' (i + 1) ms = Inl OverflowError" for out'
      using Cons.prems i by (intro Cons.IH) auto
    with i Cons.prems(2) m show ?thesis by (simp add: assign_where_ok)
  qed
qed

subsection \<open>Copying the corresponding files\<close>

text \<open>
  One copy into a directory \<open>dst\<close>, of a regular file, to a name that is no directory
  there: the file arrives, the listing of \<open>dst\<close> gains at most that name, and every other
  path is as before.
\<close>

lemma copy2_file:
  assumes dst: "fs dst = Some (Dir dn)"
    and src: "fs (src @ [n]) = Some (File d)"
    and nodir: "\<forall>x. fs (dst @ [n]) \<noteq> Some (Dir x)"
    and ne: "src \<noteq> dst"
  shows "\<exists>fs' dn'. copy2 fs (src @ [n]) (dst @ [n]) = Inr fs'
           \<and> fs' (dst @ [n]) = Some (File d)
           \<and> fs' dst = Some (Dir dn') \<and> set dn \<subseteq> set dn' \<and> set dn' \<subseteq> insert n (set dn)
           \<and> (\<forall>q. q \<noteq> dst \<and> q \<noteq> dst @ [n] \<longrightarrow> fs' q = fs q)"
proof (cases "fs (dst @ [n])")
  case None
  then have "copy2 fs (src @ [n]) (dst @ [n]) =
      Inr (fs(dst \<mapsto> Dir (dn @ [n]), dst @ [n] \<mapsto> File d))"
    using dst src ne by (simp add: copy2_def write_file_def exists_def)
  then show ?thesis by auto
next
  case (Some e)
  with nodir obtain d0 where e: "fs (dst @ [n]) = Some (File d0)"
    by (cases e) auto
  then have "copy2 fs (src @ [n]) (dst @ [n]) = Inr (fs(dst @ [n] \<mapsto> File d))"
    using dst src ne by (simp add: copy2_def write_file_def exists_def)
  then show ?thesis using dst by auto
qed

lemma copy_loop_none:
  "\<forall>n \<in> set names. \<not> prefix base n \<Longrightarrow> copy_loop src dst base names w = (Inr (), w)"
  by (induction names arbitrary: w) auto

lemma copy_loop_files:
  assumes "files w dst = Some (Dir dn)" "src \<noteq> dst"
    and "\<forall>n \<in> set names. prefix base n \<longrightarrow>
           (\<exists>d. files w (src @ [n]) = Some (File d)) \<and> (\<forall>x. files w (dst @ [n]) \<noteq> Some (Dir x))"
  shows "\<exists>w' dn'. copy_loop src dst base names w = (Inr (), w')
     \<and> (\<forall>n. files w' (dst @ [n]) =
            (if n \<in> set names \<and> prefix base n then files w (src @ [n]) else files w (dst @ [n])))
     \<and> (\<forall>q. q \<noteq> dst \<and> (\<forall>n. q \<noteq> dst @ [n]) \<longrightarrow> files w' q = files w q)
     \<and> files w' dst = Some (Dir dn') \<and> set dn \<subseteq> set dn'
     \<and> set dn' \<subseteq> set dn \<union> {n \<in> set names. prefix base n}
     \<and> logged w' = logged w @ map (\<lambda>n. (INFO, Copied_file n)) (filter (prefix base) names)"
  using assms
proof (induction names arbitrary: w dn)
  case Nil
  then show ?case by simp
next
  case (Cons n names)
  show ?case
  proof (cases "prefix base n")
    case False
    from Cons.prems have "\<forall>m \<in> set names. prefix base m \<longrightarrow>
           (\<exists>d. files w (src @ [m]) = Some (File d)) \<and> (\<forall>x. files w (dst @ [m]) \<noteq> Some (Dir x))"
      by simp
    from Cons.IH [OF Cons.prems(1,2) this] obtain w' dn' where
      IH: "copy_loop src dst base names w = (Inr (), w')"
        "\<forall>m. files w' (dst @ [m]) =
            (if m \<in> set names \<and> prefix base m then files w (src @ [m]) else files w (dst @ [m]))"
        "\<forall>q. q \<noteq> dst \<and> (\<forall>m. q \<noteq> dst @ [m]) \<longrightarrow> files w' q = files w q"
        "files w' dst = Some (Dir dn')" "set dn \<subseteq> set dn'"
        "set dn' \<subseteq> set dn \<union> {m \<in> set names. prefix base m}"
        "logged w' = logged w @ map (\<lambda>n. (INFO, Copied_file n)) (filter (prefix base) names)"
      by blast
    show ?thesis
    proof (intro exI [of _ w'] exI [of _ dn'] conjI)
      show "copy_loop src dst base (n # names) w = (Inr (), w')"
        using False IH(1) by simp
      show "\<forall>m. files w' (dst @ [m]) =
            (if m \<in> set (n # names) \<and> prefix base m then files w (src @ [m]) else files w (dst @ [m]))"
        using False IH(2) by auto
      show "set dn' \<subseteq> set dn \<union> {m \<in> set (n # names). prefix base m}"
        using IH(6) by auto
      show "logged w' = logged w @ map (\<lambda>n. (INFO, Copied_file n)) (filter (prefix base) (n # names))"
        using False IH(7) by simp
    qed (use IH in simp_all)
  next
    case True
    with Cons.prems obtain d where d: "files w (src @ [n]) = Some (File d)"
      and nd: "\<forall>x. files w (dst @ [n]) \<noteq> Some (Dir x)"
      by auto
    from copy2_file [OF Cons.prems(1) d nd Cons.prems(2)] obtain fs1 dn1 where
      c: "copy2 (files w) (src @ [n]) (dst @ [n]) = Inr fs1"
      and c1: "fs1 (dst @ [n]) = Some (File d)"
      and c2: "fs1 dst = Some (Dir dn1)" "set dn \<subseteq> set dn1" "set dn1 \<subseteq> insert n (set dn)"
      and c3: "\<forall>q. q \<noteq> dst \<and> q \<noteq> dst @ [n] \<longrightarrow> fs1 q = files w q"
      by blast
    define w1 where "w1 = logging INFO (Copied_file n) (w\<lparr>files := fs1\<rparr>)"
    have f1: "files w1 = fs1" and l1: "logged w1 = logged w @ [(INFO, Copied_file n)]"
      by (simp_all add: w1_def logging_def)
    have srcs: "fs1 (src @ [m]) = files w (src @ [m])"
      if "\<exists>d. files w (src @ [m]) = Some (File d)" for m
    proof -
      have "src @ [m] \<noteq> dst" using that Cons.prems(1) by auto
      moreover have "src @ [m] \<noteq> dst @ [n]" using Cons.prems(2) by simp
      ultimately show ?thesis using c3 by simp
    qed
    have dsts: "fs1 (dst @ [m]) = files w (dst @ [m])" if "m \<noteq> n" for m
      using c3 that by simp
    have inv: "\<forall>m \<in> set names. prefix base m \<longrightarrow>
           (\<exists>d. files w1 (src @ [m]) = Some (File d)) \<and> (\<forall>x. files w1 (dst @ [m]) \<noteq> Some (Dir x))"
    proof (intro ballI impI conjI)
      fix m assume m: "m \<in> set names" "prefix base m"
      with Cons.prems(3) have s: "\<exists>d. files w (src @ [m]) = Some (File d)"
        and t: "\<forall>x. files w (dst @ [m]) \<noteq> Some (Dir x)" by auto
      from s show "\<exists>d. files w1 (src @ [m]) = Some (File d)"
        by (simp add: f1 srcs)
      show "\<forall>x. files w1 (dst @ [m]) \<noteq> Some (Dir x)"
        using t c1 dsts [of m] by (cases "m = n") (simp_all add: f1)
    qed
    have "files w1 dst = Some (Dir dn1)" by (simp add: f1 c2)
    from Cons.IH [OF this Cons.prems(2) inv] obtain w' dn' where
      IH: "copy_loop src dst base names w1 = (Inr (), w')"
        "\<forall>m. files w' (dst @ [m]) =
            (if m \<in> set names \<and> prefix base m then files w1 (src @ [m]) else files w1 (dst @ [m]))"
        "\<forall>q. q \<noteq> dst \<and> (\<forall>m. q \<noteq> dst @ [m]) \<longrightarrow> files w' q = files w1 q"
        "files w' dst = Some (Dir dn')" "set dn1 \<subseteq> set dn'"
        "set dn' \<subseteq> set dn1 \<union> {m \<in> set names. prefix base m}"
        "logged w' = logged w1 @ map (\<lambda>n. (INFO, Copied_file n)) (filter (prefix base) names)"
      by blast
    show ?thesis
    proof (intro exI [of _ w'] exI [of _ dn'] conjI)
      show "copy_loop src dst base (n # names) w = (Inr (), w')"
        using True c IH(1) by (simp add: w1_def)
      show "\<forall>m. files w' (dst @ [m]) =
            (if m \<in> set (n # names) \<and> prefix base m then files w (src @ [m]) else files w (dst @ [m]))"
      proof
        fix m
        show "files w' (dst @ [m]) =
            (if m \<in> set (n # names) \<and> prefix base m then files w (src @ [m]) else files w (dst @ [m]))"
        proof (cases "m \<in> set names \<and> prefix base m")
          case True
          with Cons.prems(3) have "\<exists>d. files w (src @ [m]) = Some (File d)" by auto
          with True IH(2) show ?thesis by (simp add: f1 srcs)
        next
          case False
          have "files w' (dst @ [m]) = files w1 (dst @ [m])"
            using False IH(2) [rule_format, of m] by (simp only: if_False)
          then have "files w' (dst @ [m]) = fs1 (dst @ [m])" by (simp add: f1)
          then show ?thesis
            using False \<open>prefix base n\<close> c1 d dsts [of m] by (cases "m = n") auto
        qed
      qed
      show "\<forall>q. q \<noteq> dst \<and> (\<forall>m. q \<noteq> dst @ [m]) \<longrightarrow> files w' q = files w q"
        using IH(3) c3 by (simp add: f1)
      show "files w' dst = Some (Dir dn')" by (rule IH(4))
      show "set dn \<subseteq> set dn'" using c2(2) IH(5) by blast
      show "set dn' \<subseteq> set dn \<union> {m \<in> set (n # names). prefix base m}"
        using IH(6) c2(3) True by auto
      show "logged w' = logged w @ map (\<lambda>n. (INFO, Copied_file n)) (filter (prefix base) (n # names))"
        using True IH(7) l1 by simp
    qed
  qed
qed

text \<open>
  C6, as amended. Let \<open>names\<close> be the listing of the source directory. When no name
  starts with the prefix, \<^verbatim>\<open>copy_corresponding_files\<close> returns without an error and
  changes nothing. When the destination is a directory other than the source, and every
  entry whose name starts with the prefix is a regular file whose name is not that of a
  directory in the destination, it returns without an error and has copied all and only
  those entries: afterwards the destination holds, under each such name, the contents of
  the source entry, every other name in the destination is as before, the listing of the
  destination has gained only copied names, nothing outside the destination has changed,
  and one message is logged per copy.
\<close>

theorem copy_corresponding_files_copies_matching:
  assumes "listdir (files w) src = Inr names"
  shows "((\<forall>n \<in> set names. \<not> prefix base n) \<longrightarrow>
            copy_corresponding_files src dst base w = (Inr (), w))
     \<and> (files w dst = Some (Dir dn) \<and> src \<noteq> dst \<and>
        (\<forall>n \<in> set names. prefix base n \<longrightarrow>
           (\<exists>d. files w (src @ [n]) = Some (File d)) \<and> (\<forall>x. files w (dst @ [n]) \<noteq> Some (Dir x))) \<longrightarrow>
        (\<exists>w' dn'. copy_corresponding_files src dst base w = (Inr (), w')
           \<and> (\<forall>n. files w' (dst @ [n]) =
                  (if n \<in> set names \<and> prefix base n then files w (src @ [n])
                   else files w (dst @ [n])))
           \<and> (\<forall>q. q \<noteq> dst \<and> (\<forall>n. q \<noteq> dst @ [n]) \<longrightarrow> files w' q = files w q)
           \<and> files w' dst = Some (Dir dn') \<and> set dn \<subseteq> set dn'
           \<and> set dn' \<subseteq> set dn \<union> {n \<in> set names. prefix base n}
           \<and> logged w' = logged w @ map (\<lambda>n. (INFO, Copied_file n)) (filter (prefix base) names)))"
proof (intro conjI impI)
  assume "\<forall>n \<in> set names. \<not> prefix base n"
  then show "copy_corresponding_files src dst base w = (Inr (), w)"
    using assms by (simp add: copy_corresponding_files_def copy_loop_none)
next
  assume a: "files w dst = Some (Dir dn) \<and> src \<noteq> dst \<and>
        (\<forall>n \<in> set names. prefix base n \<longrightarrow>
           (\<exists>d. files w (src @ [n]) = Some (File d)) \<and> (\<forall>x. files w (dst @ [n]) \<noteq> Some (Dir x)))"
  have eq: "copy_corresponding_files src dst base w = copy_loop src dst base names w"
    using assms by (simp add: copy_corresponding_files_def)
  from a have a1: "files w dst = Some (Dir dn)" and a2: "src \<noteq> dst"
    and a3: "\<forall>n \<in> set names. prefix base n \<longrightarrow>
           (\<exists>d. files w (src @ [n]) = Some (File d)) \<and> (\<forall>x. files w (dst @ [n]) \<noteq> Some (Dir x))"
    by blast+
  show "\<exists>w' dn'. copy_corresponding_files src dst base w = (Inr (), w')
           \<and> (\<forall>n. files w' (dst @ [n]) =
                  (if n \<in> set names \<and> prefix base n then files w (src @ [n])
                   else files w (dst @ [n])))
           \<and> (\<forall>q. q \<noteq> dst \<and> (\<forall>n. q \<noteq> dst @ [n]) \<longrightarrow> files w' q = files w q)
           \<and> files w' dst = Some (Dir dn') \<and> set dn \<subseteq> set dn'
           \<and> set dn' \<subseteq> set dn \<union> {n \<in> set names. prefix base n}
           \<and> logged w' = logged w @ map (\<lambda>n. (INFO, Copied_file n)) (filter (prefix base) names)"
    unfolding eq by (rule copy_loop_files [OF a1 a2 a3])
qed

theorem copy_corresponding_files_copies_matching_witness:
  "listdir (files example_world) [''raw''] = Inr [''S1.tif'', ''S2.tif'']
   \<and> fst (copy_corresponding_files [''raw''] [''dest''] ''S1'' example_world) = Inr ()
   \<and> files (snd (copy_corresponding_files [''raw''] [''dest''] ''S1'' example_world))
        [''dest'', ''S1.tif''] = Some (File (Bytes ''first''))
   \<and> files (snd (copy_corresponding_files [''raw''] [''dest''] ''S1'' example_world))
        [''dest'', ''S2.tif''] = None"
proof -
  have l: "listdir (files example_world) [''raw''] = Inr [''S1.tif'', ''S2.tif'']"
    by (simp add: listdir_def example_world_def example_files_def)
  have h: "files example_world [''dest''] = Some (Dir []) \<and> [''raw''] \<noteq> [''dest''] \<and>
      (\<forall>n \<in> set [''S1.tif'', ''S2.tif'']. prefix ''S1'' n \<longrightarrow>
         (\<exists>d. files example_world ([''raw''] @ [n]) = Some (File d)) \<and>
         (\<forall>x. files example_world ([''dest''] @ [n]) \<noteq> Some (Dir x)))"
    by (simp add: example_world_def example_files_def)
  from copy_corresponding_files_copies_matching [OF l, of "''S1''" "[''dest'']" "[]"] h
  obtain w' where w': "copy_corresponding_files [''raw''] [''dest''] ''S1'' example_world = (Inr (), w')"
    "\<forall>n. files w' ([''dest''] @ [n]) =
       (if n \<in> set [''S1.tif'', ''S2.tif''] \<and> prefix ''S1'' n
        then files example_world ([''raw''] @ [n]) else files example_world ([''dest''] @ [n]))"
    by blast
  have "files w' ([''dest''] @ [''S1.tif'']) = Some (File (Bytes ''first''))"
    unfolding w'(2) [rule_format] by (simp add: example_world_def example_files_def)
  moreover have "files w' ([''dest''] @ [''S2.tif'']) = None"
    unfolding w'(2) [rule_format] by (simp add: example_world_def example_files_def)
  ultimately show ?thesis using l w'(1) by simp
qed

text \<open>
  C6 as stated fails for an entry that is a directory: \<^verbatim>\<open>shutil.copy2\<close> raises
  \<^verbatim>\<open>IsADirectoryError\<close> on it, and the entries listed after it are not copied. Here
  the source lists the directory \<open>S1\<close> before the file \<open>S1.tif\<close>.
\<close>

theorem copy_corresponding_files_directory_entry_counterexample:
  "listdir (files example_world) [''aux''] = Inr [''S1'', ''S1.tif'']
   \<and> prefix ''S1'' ''S1'' \<and> prefix ''S1'' ''S1.tif''
   \<and> files example_world [''aux'', ''S1''] = Some (Dir [])
   \<and> files example_world [''dest''] = Some (Dir [])
   \<and> fst (copy_corresponding_files [''aux''] [''dest''] ''S1'' example_world) = Inl IsADirectoryError
   \<and> files (snd (copy_corresponding_files [''aux''] [''dest''] ''S1'' example_world))
        [''dest'', ''S1.tif''] = None"
  by (simp add: copy_corresponding_files_def listdir_def copy2_def exists_def
      example_world_def example_files_def)

subsection \<open>The aggregated mask\<close>

text \<open>
  C1 does not hold of the code. The sample \<open>S1\<close> has the classes \<open>A\<close>, with the mask
  \<open>[[255, 0]]\<close>, and \<open>B\<close>, with the mask \<open>[[0, 255]]\<close>. The run succeeds and writes
  \<open>[[1, 0]]\<close> for \<open>A\<close> and \<open>[[0, 1]]\<close> for \<open>B\<close>; the file under \<^verbatim>\<open>all\<close> is
  \<open>[[0, 1]]\<close>, the image of the last class alone, because the aggregate is built from
  \<^verbatim>\<open>mask_images\<close>, which holds the masks of the class loaded last. The union of both
  classes with identifiers running on would be \<open>[[1, 2]]\<close>.
\<close>

theorem process_masks_all_mask_last_class_only:
  "fst (process_masks example_libs example_params example_world) = Inr ()
   \<and> files (snd (process_masks example_libs example_params example_world))
        [''out'', ''png'', ''A'', ''train'', ''S1_masks.png'']
       = Some (File (Written ''S1_masks.png'' [[1, 0]]))
   \<and> files (snd (process_masks example_libs example_params example_world))
        [''out'', ''png'', ''B'', ''train'', ''S1_masks.png'']
       = Some (File (Written ''S1_masks.png'' [[0, 1]]))
   \<and> files (snd (process_masks example_libs example_params example_world))
        [''out'', ''png'', ''all'', ''train'', ''S1_masks.png'']
       = Some (File (Written ''S1_masks.png'' [[0, 1]]))
   \<and> combine_masks example_libs [[[255, 0]], [[0, 255]]] = Inr [[1, 2]]"
proof (intro conjI)
  show "fst (process_masks example_libs example_params example_world) = Inr ()"
    by code_simp
  show "files (snd (process_masks example_libs example_params example_world))
        [''out'', ''png'', ''A'', ''train'', ''S1_masks.png'']
       = Some (File (Written ''S1_masks.png'' [[1, 0]]))"
    by code_simp
  show "files (snd (process_masks example_libs example_params example_world))
        [''out'', ''png'', ''B'', ''train'', ''S1_masks.png'']
       = Some (File (Written ''S1_masks.png'' [[0, 1]]))"
    by code_simp
  show "files (snd (process_masks example_libs example_params example_world))
        [''out'', ''png'', ''all'', ''train'', ''S1_masks.png'']
       = Some (File (Written ''S1_masks.png'' [[0, 1]]))"
    by code_simp
  show "combine_masks example_libs [[[255, 0]], [[0, 255]]] = Inr [[1, 2]]"
    by code_simp
qed

subsection \<open>A sample without a class to process\<close>

text \<open>
  Making directories changes only the paths it makes and the listing of the directory
  that receives the first of them, all of them prefixes of the path asked for.
\<close>

lemma mkdir_frame:
  "mkdir fs p = Inr fs' \<Longrightarrow> q \<noteq> p \<Longrightarrow> q \<noteq> butlast p \<Longrightarrow> fs' q = fs q"
  by (auto simp: mkdir_def split: if_splits option.splits entry.splits)

lemma makedirs_frame:
  "makedirs fs p = Inr fs' \<Longrightarrow> \<not> prefix q p \<Longrightarrow> fs' q = fs q"
proof (induction fs p arbitrary: fs' rule: makedirs.induct)
  case (1 fs name)
  have bl: "prefix (butlast name) name"
    by (rule prefixeq_butlast)
  have q: "q \<noteq> name" "q \<noteq> butlast name" "\<not> prefix q (butlast name)"
    using "1.prems"(2) bl by (auto dest: prefix_order.trans)
  show ?case
  proof (cases "butlast name \<noteq> [] \<and> \<not> exists fs (butlast name)")
    case False
    with "1.prems"(1) have "mkdir fs name = Inr fs'"
      by (simp add: makedirs.simps [of fs name])
    then show ?thesis using q(1,2) by (rule mkdir_frame)
  next
    case True
    show ?thesis
    proof (cases "makedirs fs (butlast name)")
      case (Inl e)
      with True "1.prems"(1) have "mkdir fs name = Inr fs'"
        by (simp add: makedirs.simps [of fs name] split: if_splits)
      then show ?thesis using q(1,2) by (rule mkdir_frame)
    next
      case (Inr fs1)
      with True "1.prems"(1) have m: "mkdir fs1 name = Inr fs'"
        by (simp add: makedirs.simps [of fs name])
      have "fs1 q = fs q"
        using True Inr q(3) by (rule "1.IH")
      moreover have "fs' q = fs1 q"
        using m q(1,2) by (rule mkdir_frame)
      ultimately show ?thesis by simp
    qed
  qed
qed

lemma create_directory_frame:
  assumes "fst (create_directory p w) = Inr ()" "\<not> prefix q p"
  shows "files (snd (create_directory p w)) q = files w q"
proof (cases "exists (files w) p")
  case True
  then show ?thesis by (simp add: create_directory_def)
next
  case False
  show ?thesis
  proof (cases "makedirs (files w) p")
    case (Inl e)
    with False assms(1) show ?thesis by (simp add: create_directory_def)
  next
    case (Inr fs')
    with False have "files (snd (create_directory p w)) = fs'"
      by (simp add: create_directory_def logging_def)
    with Inr assms(2) show ?thesis by (simp add: makedirs_frame)
  qed
qed

lemma process_classes_all_excluded:
  "set names \<subseteq> set (exclude_class P) \<Longrightarrow>
   process_classes L P split_name dirpath names mask_images all_masks w =
     (Inr (mask_images, all_masks),
      w\<lparr>logged := logged w @ map (\<lambda>n. (INFO, Skipping n)) names\<rparr>)"
  by (induction names arbitrary: w) (simp_all add: logging_def)

lemma split_loop_head:
  "\<exists>ps' rs'. split_loop dir vp tp names ((k, p # ps) # rs) = (k, p # ps') # rs'"
proof (induction names arbitrary: ps rs)
  case Nil
  show ?case by simp
next
  case (Cons n names)
  have "\<exists>ps1 rs1. dict_append ((k, p # ps) # rs) k' x = (k, p # ps1) # rs1" for k' x
    by (cases "k' = k") (simp_all add: dict_append_def dict_get_def)
  then show ?case using Cons.IH by (simp del: split_loop.simps add: split_loop.simps(2)) metis
qed

lemma split_loop_first:
  "\<exists>ps rs. split_loop dir vp tp (d # rest) [] =
     ((if sublist vp d then ''valid'' else if sublist tp d then ''test'' else ''train''),
      (dir @ [d]) # ps) # rs"
proof -
  have "split_loop dir vp tp (d # rest) [] =
      split_loop dir vp tp rest
        [((if sublist vp d then ''valid'' else if sublist tp d then ''test'' else ''train''),
          [dir @ [d]])]"
    by (simp add: dict_append_def dict_get_def)
  then show ?thesis
    using split_loop_head [of dir vp tp rest _ "dir @ [d]" "[]" "[]"] by simp
qed

text \<open>
  C10, as amended. Let \<open>d\<close> be the first sample in the listing of the input root, the
  first one processed. When the directory for its aggregated mask exists or can be made,
  and every entry of the sample's directory is an excluded name (an empty directory
  included), \<^verbatim>\<open>process_masks\<close> ends in \<^verbatim>\<open>UnboundLocalError\<close> at the sample's
  aggregate step, where \<^verbatim>\<open>mask_images\<close> is read and nothing has bound it. The file
  system is then as \<^verbatim>\<open>create_directory\<close> left it: the sample's file under
  \<^verbatim>\<open>all\<close> is not written, and since the log ends with the skipped classes of this
  sample, no other sample has been processed.
\<close>

theorem process_masks_unbound_first_sample:
  assumes names: "listdir (files w) (input_path P) = Inr (d # rest)"
    and sn: "split_name =
       (if sublist (val_pattern P) d then ''valid''
        else if sublist (test_pattern P) d then ''test'' else ''train'')"
    and ad: "all_dir = output_dir P @ [format P, ''all'', split_name]"
    and cd: "fst (create_directory all_dir w) = Inr ()"
    and ls: "listdir (files (snd (create_directory all_dir w))) (input_path P @ [d]) = Inr classes"
    and ex: "set classes \<subseteq> set (exclude_class P)"
  shows "fst (process_masks L P w) = Inl UnboundLocalError
     \<and> files (snd (process_masks L P w)) = files (snd (create_directory all_dir w))
     \<and> files (snd (process_masks L P w)) (all_dir @ [mask_filename d (format P)])
         = files w (all_dir @ [mask_filename d (format P)])
     \<and> logged (snd (process_masks L P w)) =
         logged (snd (create_directory all_dir w)) @
         (INFO, Processing (input_path P @ [d])) # map (\<lambda>n. (INFO, Skipping n)) classes"
proof -
  define w1 where "w1 = snd (create_directory all_dir w)"
  define w2 where "w2 = logging INFO (Processing (input_path P @ [d])) w1"
  define w3 where "w3 = w2\<lparr>logged := logged w2 @ map (\<lambda>n. (INFO, Skipping n)) classes\<rparr>"
  have cdw: "create_directory (output_dir P @ [format P, ''all'', split_name]) w = (Inr (), w1)"
    using cd by (simp add: w1_def ad prod_eq_iff)
  have ls2: "listdir (files w2) (input_path P @ [d]) = Inr classes"
    using ls by (simp add: w2_def w1_def logging_def)
  have pc: "process_classes L P split_name (input_path P @ [d]) classes None [] w2 = (Inr (None, []), w3)"
    unfolding w3_def using ex by (rule process_classes_all_excluded)
  have sample: "process_sample L P split_name (input_path P @ [d]) None w = (Inl UnboundLocalError, w3)"
    by (simp add: process_sample_def Let_def cdw ls2 [unfolded w2_def] pc [unfolded w2_def])
  have ex_in: "exists (files w) (input_path P)"
    using names by (auto simp: listdir_def exists_def split: option.splits entry.splits)
  obtain ps rs where data:
    "split_data (files w) (input_path P) (val_pattern P) (test_pattern P) =
       Inr ((split_name, (input_path P @ [d]) # ps) # rs)"
    using split_loop_first [of "input_path P" "val_pattern P" "test_pattern P" d rest] names
    by (auto simp: split_data_def sn)
  have run: "process_masks L P w = (Inl UnboundLocalError, w3)"
    by (simp add: process_masks_def ex_in data sample)
  have f3: "files w3 = files w1" and l3: "logged w3 =
      logged w1 @ (INFO, Processing (input_path P @ [d])) # map (\<lambda>n. (INFO, Skipping n)) classes"
    by (simp_all add: w3_def w2_def logging_def)
  have "\<not> prefix (all_dir @ [mask_filename d (format P)]) all_dir"
    by (auto dest: prefix_length_le)
  with cd have "files w1 (all_dir @ [mask_filename d (format P)])
      = files w (all_dir @ [mask_filename d (format P)])"
    unfolding w1_def by (rule create_directory_frame)
  with run f3 l3 show ?thesis by (simp add: w1_def)
qed

theorem process_masks_unbound_first_sample_witness:
  "listdir (files example_world) [''in2''] = Inr [''S2'', ''S1'']
   \<and> listdir (files example_world) [''in2'', ''S2''] = Inr [''Unidentified'']
   \<and> fst (process_masks example_libs (example_params\<lparr>input_path := [''in2'']\<rparr>) example_world)
       = Inl UnboundLocalError
   \<and> files (snd (process_masks example_libs (example_params\<lparr>input_path := [''in2'']\<rparr>) example_world))
       [''out'', ''png'', ''all'', ''train'', ''S2_masks.png''] = None"
proof -
  let ?P = "example_params\<lparr>input_path := [''in2'']\<rparr>"
  have l: "listdir (files example_world) (input_path ?P) = Inr [''S2'', ''S1'']"
    by (simp add: listdir_def example_world_def example_files_def)
  have sn: "''train'' =
       (if sublist (val_pattern ?P) ''S2'' then ''valid''
        else if sublist (test_pattern ?P) ''S2'' then ''test'' else ''train'')"
    by (simp add: example_params_def sublist_Cons_right)
  have ad: "[''out'', ''png'', ''all'', ''train''] = output_dir ?P @ [format ?P, ''all'', ''train'']"
    by (simp add: example_params_def)
  have cd: "fst (create_directory [''out'', ''png'', ''all'', ''train''] example_world) = Inr ()"
    by code_simp
  have ls: "listdir (files (snd (create_directory [''out'', ''png'', ''all'', ''train''] example_world)))
      (input_path ?P @ [''S2'']) = Inr [''Unidentified'']"
    by code_simp
  have ex: "set [''Unidentified''] \<subseteq> set (exclude_class ?P)"
    by (simp add: example_params_def)
  have l2: "listdir (files example_world) [''in2'', ''S2''] = Inr [''Unidentified'']"
    by (simp add: listdir_def example_world_def example_files_def)
  have none: "files example_world [''out'', ''png'', ''all'', ''train'', ''S2_masks.png''] = None"
    by (simp add: example_world_def example_files_def)
  have mf: "mask_filename ''S2'' (format example_params) = ''S2_masks.png''"
    by (simp add: mask_filename_def example_params_def)
  from process_masks_unbound_first_sample [OF l sn ad cd ls ex, of example_libs]
  have "fst (process_masks example_libs ?P example_world) = Inl UnboundLocalError"
    and "files (snd (process_masks example_libs ?P example_world))
           ([''out'', ''png'', ''all'', ''train''] @ [mask_filename ''S2'' (format ?P)])
         = files example_world ([''out'', ''png'', ''all'', ''train''] @ [mask_filename ''S2'' (format ?P)])"
    by blast+
  then show ?thesis using l l2 none by (simp add: mf)
qed

text \<open>
  C10 as stated fails for a sample that is not the first: \<^verbatim>\<open>mask_images\<close> is a
  variable of the whole function, and after an earlier sample it is bound. Here the sample
  \<open>S2\<close> has the excluded class only and comes after \<open>S1\<close>; the run raises nothing and
  writes a file under \<^verbatim>\<open>all\<close> for \<open>S2\<close>.
\<close>

theorem process_masks_stale_masks_counterexample:
  "listdir (files example_world) [''in'', ''S2''] = Inr [''Unidentified'']
   \<and> exclude_class example_params = [''Unidentified'']
   \<and> fst (process_masks example_libs example_params example_world) = Inr ()
   \<and> files (snd (process_masks example_libs example_params example_world))
        [''out'', ''png'', ''all'', ''train'', ''S2_masks.png'']
       = Some (File (Written ''S2_masks.png'' [[0, 1]]))"
proof (intro conjI)
  show "listdir (files example_world) [''in'', ''S2''] = Inr [''Unidentified'']"
    by code_simp
  show "exclude_class example_params = [''Unidentified'']"
    by (simp add: example_params_def)
  show "fst (process_masks example_libs example_params example_world) = Inr ()"
    by code_simp
  show "files (snd (process_masks example_libs example_params example_world))
        [''out'', ''png'', ''all'', ''train'', ''S2_masks.png'']
       = Some (File (Written ''S2_masks.png'' [[0, 1]]))"
    by code_simp
qed

end
